theory Spec2Isabelle
  imports Complex_Main "HOL-Library.Log_Nat"
begin

section \<open>Helpers to fit scalar values into sequences (oemof.solph._plumbing)\<close>

text \<open>
  The module has one entry function, \<open>sequence\<close>, and one class, \<open>_Sequence\<close>, a
  \<open>UserList\<close> that emulates a list of unknown length (a default value) or a periodic
  list of known length. The embedding follows the Python text: exceptions are values of
  a sum type, the object's attributes are a record, and every method takes the object and
  returns its result together with the object as the method leaves it.
\<close>

subsection \<open>Python values and exceptions\<close>

text \<open>
  The exceptions the module can raise: \<open>KeyError\<close> and \<open>ValueError\<close> by its own
  \<open>raise\<close> statements (and \<open>KeyError\<close> by a missing dictionary key), the others by the
  operators it applies.
\<close>

datatype pyerr = KeyError | ValueError | ZeroDivisionError | IndexError | TypeError | OverflowError

text \<open>
  The values that are stored and handed back but never computed with: \<open>None\<close>, numbers
  and strings. Numbers are represented by the integers.
\<close>

datatype pyval = PyNone | PyInt int | PyStr string

text \<open>What a dictionary entry holds: an integer or an ordered collection of values.\<close>

datatype dictval = DInt int | DSeq "pyval list"

text \<open>
  The argument of \<open>sequence\<close>: a scalar (or string), a list, a tuple or a dictionary.
  A dictionary is the list of its items; the entry of a key is the first item with it.
\<close>

datatype pyarg =
    Value pyval
  | PyList "pyval list"
  | PyTuple "pyval list"
  | PyDict "(string \<times> dictval) list"

fun is_Iterable :: "pyarg \<Rightarrow> bool" where
  "is_Iterable (Value (PyStr s)) = True"
| "is_Iterable (Value v) = False"
| "is_Iterable (PyList xs) = True"
| "is_Iterable (PyTuple xs) = True"
| "is_Iterable (PyDict d) = True"

fun is_str :: "pyarg \<Rightarrow> bool" where
  "is_str (Value (PyStr s)) = True"
| "is_str x = False"

fun is_MutableMapping :: "pyarg \<Rightarrow> bool" where
  "is_MutableMapping (PyDict d) = True"
| "is_MutableMapping x = False"

subsection \<open>The operators the module applies\<close>

text \<open>\<open>d[k]\<close> on a dictionary raises \<open>KeyError\<close> for a missing key.\<close>

definition dict_getitem :: "(string \<times> dictval) list \<Rightarrow> string \<Rightarrow> pyerr + dictval" where
  "dict_getitem d k = (case map_of d k of None \<Rightarrow> Inl KeyError | Some v \<Rightarrow> Inr v)"

text \<open>\<open>len(x)\<close>: an integer has no length.\<close>

fun py_len :: "dictval \<Rightarrow> pyerr + int" where
  "py_len (DSeq xs) = Inr (int (length xs))"
| "py_len (DInt a) = Inl TypeError"

text \<open>
  \<open>x % n\<close> with an integer \<open>n\<close>: a list has no \<open>%\<close>; on integers the result has the
  sign of the divisor, and a zero divisor raises.
\<close>

fun py_mod :: "dictval \<Rightarrow> int \<Rightarrow> pyerr + int" where
  "py_mod (DSeq xs) n = Inl TypeError"
| "py_mod (DInt a) n = (if n = 0 then Inl ZeroDivisionError else Inr (a mod n))"

text \<open>\<open>a // b\<close> on integers rounds towards minus infinity; a zero divisor raises.\<close>

definition py_floordiv :: "int \<Rightarrow> int \<Rightarrow> pyerr + int" where
  "py_floordiv a b = (if b = 0 then Inl ZeroDivisionError else Inr (a div b))"

text \<open>\<open>xs[i]\<close> on a list: a negative index counts from the end, anything else out of range raises.\<close>

definition list_getitem :: "'a list \<Rightarrow> int \<Rightarrow> pyerr + 'a" where
  "list_getitem xs i =
     (if 0 \<le> i \<and> i < int (length xs) then Inr (xs ! nat i)
      else if - int (length xs) \<le> i \<and> i < 0 then Inr (xs ! nat (int (length xs) + i))
      else Inl IndexError)"

text \<open>The truth value of \<open>periodic_values\<close>: \<open>None\<close> and the empty list are false.\<close>

fun truthy :: "pyval list option \<Rightarrow> bool" where
  "truthy None = False"
| "truthy (Some []) = False"
| "truthy (Some (x # xs)) = True"

subsection \<open>True division of integers, and \<open>int\<close> of a float\<close>

text \<open>
  \<open>a / b\<close> on two integers is the binary64 number nearest to the exact quotient, ties to
  the even significand; it raises \<open>OverflowError\<close> when that number would reach
  \<open>2 ^ 1024\<close> and \<open>ZeroDivisionError\<close> when \<open>b\<close> is zero. A finite binary64 number is
  represented by \<open>Float m q\<close>, standing for \<open>m * 2 ^ q\<close>, with \<open>\<bar>m\<bar> \<le> 2 ^ 53\<close> and
  \<open>- 1074 \<le> q\<close>.
\<close>

datatype pyfloat = Float int int

text \<open>The integer nearest to \<open>p / q\<close> for \<open>0 \<le> p\<close> and \<open>0 < q\<close>, ties to even.\<close>

definition round_half_even :: "int \<Rightarrow> int \<Rightarrow> int" where
  "round_half_even p q =
     (let f = p div q; r = p mod q
      in if 2 * r < q then f
         else if q < 2 * r then f + 1
         else if even f then f else f + 1)"

text \<open>For \<open>0 < n\<close> and \<open>0 < d\<close>, the \<open>e\<close> with \<open>2 ^ e \<le> n / d < 2 ^ (e + 1)\<close>.\<close>

definition floor_log2 :: "int \<Rightarrow> int \<Rightarrow> int" where
  "floor_log2 n d =
     (let k = bitlen n - bitlen d
      in if (if 0 \<le> k then d * 2 ^ nat k \<le> n else d \<le> n * 2 ^ nat (- k)) then k else k - 1)"

definition int_truediv :: "int \<Rightarrow> int \<Rightarrow> pyerr + pyfloat" where
  "int_truediv a b =
     (if b = 0 then Inl ZeroDivisionError
      else if a = 0 then Inr (Float 0 0)
      else
        let n = \<bar>a\<bar>; d = \<bar>b\<bar>;
            e = floor_log2 n d;
            q = max (e - 52) (- 1074);
            m = (if 0 \<le> q then round_half_even n (d * 2 ^ nat q)
                 else round_half_even (n * 2 ^ nat (- q)) d)
        in if 1023 < e \<or> (e = 1023 \<and> m = 2 ^ 53) then Inl OverflowError
           else Inr (Float (sgn a * sgn b * m) q))"

text \<open>\<open>int(x)\<close> of a finite float drops the fractional part (rounds towards zero).\<close>

fun int_of_float :: "pyfloat \<Rightarrow> int" where
  "int_of_float (Float m q) =
     (if 0 \<le> q then m * 2 ^ nat q else sgn m * (\<bar>m\<bar> div 2 ^ nat (- q)))"

subsection \<open>The class \<open>_Sequence\<close>\<close>

text \<open>
  The attributes of a \<open>_Sequence\<close> object: \<open>data\<close> is inherited from \<open>UserList\<close> and
  starts empty, the others are set by \<open>__init__\<close>.
\<close>

record Sequence =
  data :: "pyval list"
  default_val :: pyval
  periodic_values :: "pyval list option"
  default_changed :: bool
  highest_index :: int
  period_length :: "int option"

text \<open>
  \<open>__init__(default, periodic_values, highest_index)\<close>; the keyword defaults are
  \<open>None\<close>, \<open>None\<close> and \<open>-1\<close>.
\<close>

definition Sequence_init :: "pyval \<Rightarrow> pyval list option \<Rightarrow> int \<Rightarrow> pyerr + Sequence" where
  "Sequence_init dflt pv hi =
     (if dflt \<noteq> PyNone \<and> pv \<noteq> None then Inl ValueError
      else
        case (if truthy pv
              then (case int_truediv hi (int (length (the pv))) of
                      Inl e \<Rightarrow> Inl e
                    | Inr x \<Rightarrow> Inr (Some (int_of_float x)))
              else Inr None) of
          Inl e \<Rightarrow> Inl e
        | Inr pl \<Rightarrow>
            Inr \<lparr>data = [], default_val = dflt, periodic_values = pv,
                 default_changed = False, highest_index = hi, period_length = pl\<rparr>)"

text \<open>\<open>_get_period_\<close>: \<open>key // self.period_length\<close>; \<open>//\<close> with \<open>None\<close> is a type error.\<close>

definition get_period :: "Sequence \<Rightarrow> int \<Rightarrow> pyerr + int" where
  "get_period s key =
     (case period_length s of None \<Rightarrow> Inl TypeError | Some w \<Rightarrow> py_floordiv key w)"

text \<open>\<open>__getitem__\<close>: the value at \<open>key\<close> and the object afterwards.\<close>

definition getitem :: "Sequence \<Rightarrow> int \<Rightarrow> pyerr + (pyval \<times> Sequence)" where
  "getitem s key =
     (if truthy (periodic_values s) then
        (case get_period s key of
           Inl e \<Rightarrow> Inl e
         | Inr period \<Rightarrow>
             (case list_getitem (the (periodic_values s)) period of
                Inl e \<Rightarrow> Inl e
              | Inr v \<Rightarrow> Inr (v, s)))
      else Inr (default_val s, s\<lparr>highest_index := max (highest_index s) key\<rparr>))"

text \<open>
  The method \<open>__len__\<close>: the number it returns and the object afterwards. This is the
  bare method, \<open>x.__len__()\<close>; the length query \<open>len(x)\<close> is \<open>builtin_len\<close> below.
\<close>

definition len :: "Sequence \<Rightarrow> int \<times> Sequence" where
  "len s =
     (if truthy (periodic_values s) then (highest_index s, s)
      else (max (int (length (data s))) (highest_index s + 1), s))"

text \<open>
  \<open>sys.maxsize\<close>, the largest value of the interpreter's index type: \<open>2 ^ 63 - 1\<close> on a
  64-bit build.
\<close>

definition maxsize :: int where
  "maxsize = 2 ^ 63 - 1"

text \<open>
  The length query \<open>len(x)\<close>: the interpreter calls \<open>__len__\<close> and refuses a negative
  result with \<open>ValueError\<close> and one above \<open>sys.maxsize\<close> with \<open>OverflowError\<close>.
\<close>

definition builtin_len :: "Sequence \<Rightarrow> pyerr + (int \<times> Sequence)" where
  "builtin_len s =
     (case len s of
        (n, s') \<Rightarrow>
          if n < 0 then Inl ValueError
          else if maxsize < n then Inl OverflowError
          else Inr (n, s'))"

text \<open>
  \<open>itertools.repeat(x, n)\<close>: the count \<open>n\<close> has to fit the interpreter's index type, or
  the call raises \<open>OverflowError\<close>; a count that is zero or negative yields nothing.
\<close>

definition repeat :: "pyval \<Rightarrow> int \<Rightarrow> pyerr + pyval list" where
  "repeat x n =
     (if maxsize < n \<or> n < - maxsize - 1 then Inl OverflowError
      else Inr (replicate (nat n) x))"

text \<open>
  \<open>__iter__\<close>: the values the returned iterator yields, in order, and the object
  afterwards. \<open>range(n)\<close> is empty for \<open>n \<le> 0\<close> and takes an integer of any size.
\<close>

definition iter :: "Sequence \<Rightarrow> pyerr + (pyval list \<times> Sequence)" where
  "iter s =
     (if truthy (periodic_values s) then
        (case period_length s of
           None \<Rightarrow> Inl TypeError
         | Some w \<Rightarrow> Inr (concat (map (\<lambda>value. replicate (nat w) value) (the (periodic_values s))), s))
      else
        (case repeat (default_val s) (highest_index s + 1) of
           Inl e \<Rightarrow> Inl e
         | Inr xs \<Rightarrow> Inr (xs, s)))"

subsection \<open>The function \<open>sequence\<close>\<close>

text \<open>What \<open>sequence\<close> returns: its argument itself, or a new \<open>_Sequence\<close>.\<close>

datatype pyres = Original pyarg | Emulated Sequence

definition new_Sequence :: "pyval \<Rightarrow> pyval list option \<Rightarrow> int \<Rightarrow> pyerr + pyres" where
  "new_Sequence dflt pv hi =
     (case Sequence_init dflt pv hi of Inl e \<Rightarrow> Inl e | Inr s \<Rightarrow> Inr (Emulated s))"

text \<open>
  The dictionary branch: \<open>d["len"] % len(d["values"])\<close> evaluates the left operand, then
  the right one, then \<open>%\<close>; the constructor then receives \<open>d.get("len")\<close> and
  \<open>d.get("values")\<close>, the same two entries. Once \<open>%\<close> and \<open>len\<close> have succeeded the
  first is an integer and the second a collection, so the last branch of the model is
  never taken.
\<close>

definition sequence_mapping :: "(string \<times> dictval) list \<Rightarrow> pyerr + pyres" where
  "sequence_mapping d =
     (case dict_getitem d ''len'' of
        Inl e \<Rightarrow> Inl e
      | Inr l \<Rightarrow>
         (case dict_getitem d ''values'' of
            Inl e \<Rightarrow> Inl e
          | Inr vs \<Rightarrow>
             (case py_len vs of
                Inl e \<Rightarrow> Inl e
              | Inr n \<Rightarrow>
                 (case py_mod l n of
                    Inl e \<Rightarrow> Inl e
                  | Inr r \<Rightarrow>
                     if r \<noteq> 0 then Inl KeyError
                     else (case (l, vs) of
                             (DInt L, DSeq p) \<Rightarrow> new_Sequence PyNone (Some p) L
                           | _ \<Rightarrow> Inl TypeError)))))"

text \<open>
  The function itself, test by test. Only a dictionary is a \<open>MutableMapping\<close> and only a
  \<open>Value\<close> reaches the last branch, so neither inner \<open>TypeError\<close> is ever returned.
\<close>

definition sequence :: "pyarg \<Rightarrow> pyerr + pyres" where
  "sequence iterable_or_scalar =
     (if is_Iterable iterable_or_scalar \<and> \<not> is_str iterable_or_scalar then
        (if is_MutableMapping iterable_or_scalar then
           (case iterable_or_scalar of PyDict d \<Rightarrow> sequence_mapping d | _ \<Rightarrow> Inl TypeError)
         else Inr (Original iterable_or_scalar))
      else (case iterable_or_scalar of
              Value v \<Rightarrow> new_Sequence v None (- 1)
            | _ \<Rightarrow> Inl TypeError))"

text \<open>The dictionary \<open>{"len": L, "values": p}\<close>.\<close>

definition periodic_spec :: "int \<Rightarrow> pyval list \<Rightarrow> pyarg" where
  "periodic_spec L p = PyDict [(''len'', DInt L), (''values'', DSeq p)]"

text \<open>
  Reading a list of indices one after the other on the same object; the first exception
  ends the run.
\<close>

fun reads :: "Sequence \<Rightarrow> int list \<Rightarrow> pyerr + Sequence" where
  "reads s [] = Inr s"
| "reads s (k # ks) = (case getitem s k of Inl e \<Rightarrow> Inl e | Inr (v, s') \<Rightarrow> reads s' ks)"

section \<open>Properties of the arithmetic\<close>

subsection \<open>The binary exponent of a quotient\<close>

lemma pow2_le_bitlen: "0 < n \<Longrightarrow> 2 ^ nat (bitlen n - 1) \<le> n"
  using bitlen_bounds by blast

lemma bitlen_less_pow2: "0 < n \<Longrightarrow> n < 2 ^ nat (bitlen n)"
  using bitlen_bounds by blast

lemma bitlen_pos: "0 < n \<Longrightarrow> 1 \<le> bitlen n"
  using bitlen_eq_zero_iff [of n] bitlen_nonneg [of n] by linarith

lemma bitlen_diff_lower_pos:
  assumes "0 < n" "0 < d" "1 \<le> bitlen n - bitlen d"
  shows "d * 2 ^ nat (bitlen n - bitlen d - 1) \<le> n"
proof -
  have "d * 2 ^ nat (bitlen n - bitlen d - 1) \<le> 2 ^ nat (bitlen d) * 2 ^ nat (bitlen n - bitlen d - 1)"
    using bitlen_less_pow2 [OF assms(2)] by (simp add: mult_right_mono)
  also have "\<dots> = 2 ^ (nat (bitlen d) + nat (bitlen n - bitlen d - 1))"
    by (simp add: power_add)
  also have "nat (bitlen d) + nat (bitlen n - bitlen d - 1) = nat (bitlen n - 1)"
    using assms(3) bitlen_nonneg [of d] by linarith
  finally show ?thesis using pow2_le_bitlen [OF assms(1)] by linarith
qed

lemma bitlen_diff_lower_neg:
  assumes "0 < n" "0 < d" "bitlen n - bitlen d \<le> 0"
  shows "d \<le> n * 2 ^ nat (1 - (bitlen n - bitlen d))"
proof -
  have "d \<le> 2 ^ nat (bitlen d)" using bitlen_less_pow2 [OF assms(2)] by simp
  also have "nat (bitlen d) = nat (bitlen n - 1) + nat (1 - (bitlen n - bitlen d))"
    using assms(3) bitlen_pos [OF assms(1)] by linarith
  also have "(2::int) ^ (nat (bitlen n - 1) + nat (1 - (bitlen n - bitlen d)))
      = 2 ^ nat (bitlen n - 1) * 2 ^ nat (1 - (bitlen n - bitlen d))"
    by (simp add: power_add)
  also have "\<dots> \<le> n * 2 ^ nat (1 - (bitlen n - bitlen d))"
    using pow2_le_bitlen [OF assms(1)] by (simp add: mult_right_mono)
  finally show ?thesis .
qed

lemma floor_log2_lower:
  assumes "0 < n" "0 < d"
  shows "if 0 \<le> floor_log2 n d then d * 2 ^ nat (floor_log2 n d) \<le> n
         else d \<le> n * 2 ^ nat (- floor_log2 n d)"
proof -
  define k where "k = bitlen n - bitlen d"
  have unf: "floor_log2 n d =
      (if (if 0 \<le> k then d * 2 ^ nat k \<le> n else d \<le> n * 2 ^ nat (- k)) then k else k - 1)"
    unfolding floor_log2_def k_def Let_def ..
  show ?thesis
  proof (cases "if 0 \<le> k then d * 2 ^ nat k \<le> n else d \<le> n * 2 ^ nat (- k)")
    case True
    then have "floor_log2 n d = k" using unf by simp
    with True show ?thesis by simp
  next
    case False
    then have e: "floor_log2 n d = k - 1" using unf by simp
    show ?thesis
    proof (cases "1 \<le> k")
      case True
      then show ?thesis using bitlen_diff_lower_pos [OF assms] e by (simp add: k_def)
    next
      case f: False
      then have "- (k - 1) = 1 - k" by simp
      then show ?thesis using bitlen_diff_lower_neg [OF assms] e f by (simp add: k_def)
    qed
  qed
qed

lemma floor_log2_less:
  assumes "0 < n" "0 < d" "n < d * 2 ^ k"
  shows "floor_log2 n d < int k"
proof (rule ccontr)
  assume "\<not> floor_log2 n d < int k"
  then have ge: "int k \<le> floor_log2 n d" by simp
  then have "0 \<le> floor_log2 n d" by linarith
  then have "d * 2 ^ nat (floor_log2 n d) \<le> n" using floor_log2_lower [OF assms(1,2)] by simp
  moreover have "(2::int) ^ k \<le> 2 ^ nat (floor_log2 n d)"
    using ge by (intro power_increasing) auto
  then have "d * 2 ^ k \<le> d * 2 ^ nat (floor_log2 n d)" using assms(2) by (simp add: mult_left_mono)
  ultimately show False using assms(3) by linarith
qed

lemma round_half_even_exact: "0 < d \<Longrightarrow> round_half_even (x * d) d = x"
  by (simp add: round_half_even_def)


lemma bitlen_diff_upper_pos:
  assumes "0 < n" "0 < d" "0 \<le> bitlen n - bitlen d + 1"
  shows "n < d * 2 ^ nat (bitlen n - bitlen d + 1)"
proof -
  have "n < 2 ^ nat (bitlen n)" using bitlen_less_pow2 [OF assms(1)] .
  also have "nat (bitlen n) = nat (bitlen d - 1) + nat (bitlen n - bitlen d + 1)"
    using assms(3) bitlen_pos [OF assms(2)] by linarith
  also have "(2::int) ^ (nat (bitlen d - 1) + nat (bitlen n - bitlen d + 1))
      = 2 ^ nat (bitlen d - 1) * 2 ^ nat (bitlen n - bitlen d + 1)"
    by (simp add: power_add)
  also have "\<dots> \<le> d * 2 ^ nat (bitlen n - bitlen d + 1)"
    using pow2_le_bitlen [OF assms(2)] by (simp add: mult_right_mono)
  finally show ?thesis .
qed

lemma bitlen_diff_upper_neg:
  assumes "0 < n" "0 < d" "bitlen n - bitlen d + 1 < 0"
  shows "n * 2 ^ nat (- (bitlen n - bitlen d + 1)) < d"
proof -
  have "n * 2 ^ nat (- (bitlen n - bitlen d + 1)) < 2 ^ nat (bitlen n) * 2 ^ nat (- (bitlen n - bitlen d + 1))"
    using bitlen_less_pow2 [OF assms(1)] by simp
  also have "\<dots> = 2 ^ (nat (bitlen n) + nat (- (bitlen n - bitlen d + 1)))"
    by (simp add: power_add)
  also have "nat (bitlen n) + nat (- (bitlen n - bitlen d + 1)) = nat (bitlen d - 1)"
    using assms(3) bitlen_nonneg [of n] by linarith
  finally show ?thesis using pow2_le_bitlen [OF assms(2)] by linarith
qed

lemma floor_log2_upper:
  assumes "0 < n" "0 < d"
  shows "if 0 \<le> floor_log2 n d + 1 then n < d * 2 ^ nat (floor_log2 n d + 1)
         else n * 2 ^ nat (- (floor_log2 n d + 1)) < d"
proof -
  define k where "k = bitlen n - bitlen d"
  have unf: "floor_log2 n d =
      (if (if 0 \<le> k then d * 2 ^ nat k \<le> n else d \<le> n * 2 ^ nat (- k)) then k else k - 1)"
    unfolding floor_log2_def k_def Let_def ..
  show ?thesis
  proof (cases "if 0 \<le> k then d * 2 ^ nat k \<le> n else d \<le> n * 2 ^ nat (- k)")
    case True
    then have e: "floor_log2 n d = k" using unf by simp
    show ?thesis
    proof (cases "0 \<le> k + 1")
      case True
      then show ?thesis using bitlen_diff_upper_pos [OF assms] e by (simp add: k_def)
    next
      case False
      then show ?thesis using bitlen_diff_upper_neg [OF assms] e by (simp add: k_def)
    qed
  next
    case False
    then have e: "floor_log2 n d = k - 1" using unf by simp
    with False show ?thesis by (simp split: if_splits)
  qed
qed

lemma floor_log2_ge:
  assumes "0 < n" "0 < d" "d * 2 ^ k \<le> n"
  shows "int k \<le> floor_log2 n d"
proof (rule ccontr)
  assume "\<not> int k \<le> floor_log2 n d"
  then have lt: "floor_log2 n d + 1 \<le> int k" by simp
  show False
  proof (cases "0 \<le> floor_log2 n d + 1")
    case True
    then have "n < d * 2 ^ nat (floor_log2 n d + 1)" using floor_log2_upper [OF assms(1,2)] by simp
    moreover have "(2::int) ^ nat (floor_log2 n d + 1) \<le> 2 ^ k"
      using lt True by (intro power_increasing) auto
    then have "d * 2 ^ nat (floor_log2 n d + 1) \<le> d * 2 ^ k"
      using assms(2) by (simp add: mult_left_mono)
    ultimately show False using assms(3) by linarith
  next
    case False
    then have "n * 2 ^ nat (- (floor_log2 n d + 1)) < d" using floor_log2_upper [OF assms(1,2)] by simp
    moreover have "n * 1 \<le> n * 2 ^ nat (- (floor_log2 n d + 1))"
      using assms(1) by (intro mult_left_mono) auto
    moreover have "d * 1 \<le> d * 2 ^ k" using assms(2) by (intro mult_left_mono) auto
    ultimately show False using assms(3) by linarith
  qed
qed

subsection \<open>Where \<open>int(a / b)\<close> is the exact quotient\<close>

text \<open>
  When \<open>b\<close> divides \<open>a\<close> and the quotient has at most 53 bits (or is \<open>2 ^ 53\<close>), the
  quotient is a binary64 number, so the division is exact and \<open>int\<close> gives it back.
\<close>

lemma int_truediv_exact_small:
  assumes b: "0 < b" and q: "\<bar>q\<bar> < 2 ^ 53"
  shows "\<exists>x. int_truediv (q * b) b = Inr x \<and> int_of_float x = q"
proof (cases "q = 0")
  case True
  then show ?thesis using b by (simp add: int_truediv_def)
next
  case False
  define n where "n = \<bar>q\<bar> * b"
  have npos: "0 < n" using False b by (simp add: n_def)
  have nlt: "n < b * 2 ^ 53" using q b by (simp add: n_def mult.commute)
  define e where "e = floor_log2 n b"
  have e52: "e \<le> 52" using floor_log2_less [OF npos b nlt] by (simp add: e_def)
  define qq where "qq = max (e - 52) (- 1074)"
  have qq0: "qq \<le> 0" "- 1074 \<le> qq" using e52 by (simp_all add: qq_def)
  define m where "m = (if 0 \<le> qq then round_half_even n (b * 2 ^ nat qq)
                 else round_half_even (n * 2 ^ nat (- qq)) b)"
  have m: "m = \<bar>q\<bar> * 2 ^ nat (- qq)"
  proof (cases "0 \<le> qq")
    case True
    then have "qq = 0" using qq0 by simp
    then show ?thesis using round_half_even_exact [OF b, of "\<bar>q\<bar>"] by (simp add: m_def n_def)
  next
    case False
    have eq: "n * 2 ^ nat (- qq) = (\<bar>q\<bar> * 2 ^ nat (- qq)) * b" by (simp add: n_def)
    have "round_half_even (n * 2 ^ nat (- qq)) b = \<bar>q\<bar> * 2 ^ nat (- qq)"
      unfolding eq by (rule round_half_even_exact [OF b])
    then show ?thesis using False by (simp only: m_def if_False)
  qed
  have ab: "\<bar>q * b\<bar> = n" "\<bar>b\<bar> = b" "q * b \<noteq> 0" "b \<noteq> 0" "sgn b = 1"
    using b False by (simp_all add: n_def abs_mult)
  have res: "int_truediv (q * b) b = Inr (Float (sgn q * m) qq)"
    unfolding int_truediv_def Let_def ab e_def [symmetric] qq_def [symmetric]
    using e52 ab(3,4) b by (simp add: m_def sgn_mult)
  have "int_of_float (Float (sgn q * m) qq) = q"
  proof (cases "qq = 0")
    case True
    then show ?thesis by (simp add: m sgn_mult_abs)
  next
    case f: False
    then have neg: "\<not> 0 \<le> qq" using qq0 by simp
    have mpos: "0 < m" using False by (simp add: m)
    have "sgn (sgn q * m) = sgn q" using mpos by (simp add: sgn_mult)
    moreover have "\<bar>sgn q * m\<bar> = m" using mpos False by (simp add: abs_mult)
    ultimately show ?thesis using neg by (simp add: m sgn_mult_abs)
  qed
  with res show ?thesis by simp
qed


lemma int_truediv_exact_pow53:
  assumes b: "0 < b" and q: "\<bar>q\<bar> = 2 ^ 53"
  shows "\<exists>x. int_truediv (q * b) b = Inr x \<and> int_of_float x = q"
proof -
  define n where "n = \<bar>q\<bar> * b"
  have n: "n = b * 2 ^ 53" by (simp add: n_def q)
  have npos: "0 < n" using b by (simp add: n)
  have q0: "q \<noteq> 0" using q by auto
  have "n < b * 2 ^ 54" using b by (simp add: n)
  then have "floor_log2 n b < int 54" by (rule floor_log2_less [OF npos b])
  moreover have "b * 2 ^ 53 \<le> n" by (simp add: n)
  then have "int 53 \<le> floor_log2 n b" by (rule floor_log2_ge [OF npos b])
  ultimately have e: "floor_log2 n b = 53" by simp
  have "n = 2 ^ 52 * (b * 2)" by (simp add: n)
  then have r: "round_half_even n (b * 2) = 2 ^ 52"
    using round_half_even_exact [of "b * 2" "2 ^ 52"] b by simp
  have ab: "\<bar>q * b\<bar> = n" "\<bar>b\<bar> = b" "q * b \<noteq> 0" "b \<noteq> 0" "sgn b = 1"
    using b q0 by (simp_all add: n_def abs_mult)
  have res: "int_truediv (q * b) b = Inr (Float (sgn q * 2 ^ 52) 1)"
    unfolding int_truediv_def Let_def ab e
    using ab(3,4,5) by (simp add: r sgn_mult)
  have "sgn q * 2 ^ 52 * 2 = sgn q * \<bar>q\<bar>" by (simp add: q)
  then have "int_of_float (Float (sgn q * 2 ^ 52) 1) = q" by (simp add: sgn_mult_abs)
  with res show ?thesis by simp
qed

lemma int_truediv_exact:
  assumes "0 < b" "\<bar>q\<bar> \<le> 2 ^ 53"
  shows "\<exists>x. int_truediv (q * b) b = Inr x \<and> int_of_float x = q"
proof (cases "\<bar>q\<bar> = 2 ^ 53")
  case True
  then show ?thesis by (rule int_truediv_exact_pow53 [OF assms(1)])
next
  case False
  then have "\<bar>q\<bar> < 2 ^ 53" using assms(2) by simp
  then show ?thesis by (rule int_truediv_exact_small [OF assms(1)])
qed

lemma int_truediv_returns:
  assumes b: "0 < b" and a: "\<bar>a\<bar> < 2 ^ 1023"
  shows "\<exists>x. int_truediv a b = Inr x"
proof (cases "a = 0")
  case True
  then show ?thesis using b by (simp add: int_truediv_def)
next
  case False
  then have npos: "0 < \<bar>a\<bar>" by simp
  have "(2::int) ^ 1023 * 1 \<le> 2 ^ 1023 * b" using b by (intro mult_left_mono) auto
  then have "\<bar>a\<bar> < b * 2 ^ 1023" using a by (simp add: mult.commute)
  then have "floor_log2 \<bar>a\<bar> b < int 1023" by (rule floor_log2_less [OF npos b])
  then have e: "\<not> 1023 < floor_log2 \<bar>a\<bar> b" "floor_log2 \<bar>a\<bar> b \<noteq> 1023" by simp_all
  have bb: "\<bar>b\<bar> = b" "b \<noteq> 0" using b by simp_all
  show ?thesis unfolding int_truediv_def Let_def bb using False e bb(2) by simp
qed

section \<open>Properties of the functions\<close>

subsection \<open>What \<open>sequence\<close> does on each shape of argument\<close>

lemma sequence_Value:
  "sequence (Value v) =
     Inr (Emulated \<lparr>data = [], default_val = v, periodic_values = None,
                     default_changed = False, highest_index = - 1, period_length = None\<rparr>)"
  by (cases v) (simp_all add: sequence_def new_Sequence_def Sequence_init_def)

lemma sequence_periodic_spec:
  "sequence (periodic_spec L p) =
     (if p = [] then Inl ZeroDivisionError
      else if L mod int (length p) \<noteq> 0 then Inl KeyError
      else new_Sequence PyNone (Some p) L)"
  by (simp add: sequence_def periodic_spec_def sequence_mapping_def dict_getitem_def)

lemma new_Sequence_periodic:
  assumes "p \<noteq> []"
  shows "new_Sequence PyNone (Some p) L =
     (case int_truediv L (int (length p)) of
        Inl e \<Rightarrow> Inl e
      | Inr x \<Rightarrow>
          Inr (Emulated \<lparr>data = [], default_val = PyNone, periodic_values = Some p,
                 default_changed = False, highest_index = L,
                 period_length = Some (int_of_float x)\<rparr>))"
proof -
  from assms obtain y ys where "p = y # ys" by (cases p) auto
  then show ?thesis
    by (simp add: new_Sequence_def Sequence_init_def split: sum.splits)
qed

text \<open>A multiple of the pattern's length, small enough for the division to be exact.\<close>

lemma sequence_periodic_exact:
  assumes "p \<noteq> []" "L mod int (length p) = 0" "\<bar>L\<bar> \<le> 2 ^ 53 * int (length p)"
  shows "sequence (periodic_spec L p) =
     Inr (Emulated \<lparr>data = [], default_val = PyNone, periodic_values = Some p,
            default_changed = False, highest_index = L,
            period_length = Some (L div int (length p))\<rparr>)"
proof -
  define b where "b = int (length p)"
  have b: "0 < b" using assms(1) by (simp add: b_def)
  define q where "q = L div b"
  have "b dvd L" using assms(2) by (simp add: b_def mod_eq_0_iff_dvd)
  then have L: "L = q * b" by (simp add: q_def)
  have "\<bar>q\<bar> * b \<le> 2 ^ 53 * b" using assms(3) b by (simp add: L abs_mult b_def [symmetric])
  then have "\<bar>q\<bar> \<le> 2 ^ 53" using b by simp
  from int_truediv_exact [OF b this] obtain x
    where x: "int_truediv (q * b) b = Inr x" "int_of_float x = q" by blast
  have "int_truediv L b = Inr x" using x(1) by (simp only: L [symmetric])
  then have "int_truediv L (int (length p)) = Inr x" "int_of_float x = L div int (length p)"
    using x(2) by (simp_all only: b_def q_def)
  then show ?thesis
    using assms(1,2) by (simp add: sequence_periodic_spec new_Sequence_periodic)
qed

text \<open>Any multiple of the pattern's length below \<open>2 ^ 1023\<close> in size.\<close>

lemma sequence_periodic_returns:
  assumes "p \<noteq> []" "L mod int (length p) = 0" "\<bar>L\<bar> < 2 ^ 1023"
  shows "\<exists>w. sequence (periodic_spec L p) =
     Inr (Emulated \<lparr>data = [], default_val = PyNone, periodic_values = Some p,
            default_changed = False, highest_index = L, period_length = Some w\<rparr>)"
proof -
  have b: "0 < int (length p)" using assms(1) by simp
  from int_truediv_returns [OF b assms(3)] obtain x
    where "int_truediv L (int (length p)) = Inr x" by blast
  then show ?thesis
    using assms(1,2) by (simp add: sequence_periodic_spec new_Sequence_periodic)
qed

subsection \<open>Reading in default mode\<close>

lemma getitem_default:
  "\<not> truthy (periodic_values s) \<Longrightarrow>
     getitem s key = Inr (default_val s, s\<lparr>highest_index := max (highest_index s) key\<rparr>)"
  by (simp add: getitem_def)

lemma len_default:
  "\<not> truthy (periodic_values s) \<Longrightarrow>
     len s = (max (int (length (data s))) (highest_index s + 1), s)"
  by (simp add: len_def)

lemma reads_default:
  "\<not> truthy (periodic_values s) \<Longrightarrow>
     reads s ks = Inr (s\<lparr>highest_index := fold max ks (highest_index s)\<rparr>)"
proof (induction ks arbitrary: s)
  case Nil
  then show ?case by simp
next
  case (Cons k ks)
  have "\<not> truthy (periodic_values (s\<lparr>highest_index := max (highest_index s) k\<rparr>))"
    using Cons.prems by simp
  from Cons.IH [OF this] show ?case
    using Cons.prems by (simp add: getitem_default max.commute)
qed

lemma fold_max_Max: "fold max ks (h::int) = Max (insert h (set ks))"
proof (induction ks arbitrary: h)
  case Nil
  then show ?case by simp
next
  case (Cons k ks)
  have "Max (insert (max k h) (set ks)) = max (max k h) (Max (insert h (set ks)))"
    by (cases "set ks = {}") (simp_all add: max.assoc max.left_commute)
  moreover have "Max (insert h (insert k (set ks))) = max k (Max (insert h (set ks)))"
    by (simp add: insert_commute [of h k])
  ultimately show ?case using Cons [of "max k h"] by (simp add: max.assoc max.left_commute max.commute)
qed

subsection \<open>Reading in periodic mode\<close>

lemma getitem_periodic:
  assumes "periodic_values s = Some p" "p \<noteq> []" "period_length s = Some w"
  shows "getitem s key =
     (if w = 0 then Inl ZeroDivisionError
      else case list_getitem p (key div w) of Inl e \<Rightarrow> Inl e | Inr v \<Rightarrow> Inr (v, s))"
proof -
  from assms(2) obtain y ys where "p = y # ys" by (cases p) auto
  then have "truthy (periodic_values s)" using assms(1) by simp
  then show ?thesis using assms(1,3)
    by (simp add: getitem_def get_period_def py_floordiv_def)
qed

subsection \<open>The examples of the docstrings\<close>

text \<open>
  \<open>sequence([1,2])\<close> is \<open>[1, 2]\<close>; with \<open>x = sequence(10)\<close>, \<open>x[0]\<close> and \<open>x[10]\<close> are 10 and
  \<open>x\<close> then prints as eleven tens.
\<close>

lemma docstring_sequence_list:
  "sequence (PyList [PyInt 1, PyInt 2]) = Inr (Original (PyList [PyInt 1, PyInt 2]))"
  by code_simp

lemma docstring_sequence_scalar:
  "sequence (Value (PyInt 10)) =
     Inr (Emulated \<lparr>data = [], default_val = PyInt 10, periodic_values = None,
            default_changed = False, highest_index = - 1, period_length = None\<rparr>) \<and>
   getitem \<lparr>data = [], default_val = PyInt 10, periodic_values = None,
            default_changed = False, highest_index = - 1, period_length = None\<rparr> 0
     = Inr (PyInt 10, \<lparr>data = [], default_val = PyInt 10, periodic_values = None,
            default_changed = False, highest_index = 0, period_length = None\<rparr>) \<and>
   getitem \<lparr>data = [], default_val = PyInt 10, periodic_values = None,
            default_changed = False, highest_index = 0, period_length = None\<rparr> 10
     = Inr (PyInt 10, \<lparr>data = [], default_val = PyInt 10, periodic_values = None,
            default_changed = False, highest_index = 10, period_length = None\<rparr>) \<and>
   map_sum id fst (iter \<lparr>data = [], default_val = PyInt 10, periodic_values = None,
            default_changed = False, highest_index = 10, period_length = None\<rparr>)
     = Inr (replicate 11 (PyInt 10))"
  by code_simp

text \<open>
  With \<open>x = sequence({"len":9,"values":[0,1,2]})\<close>, \<open>x\<close> prints as
  \<open>[0, 0, 0, 1, 1, 1, 2, 2, 2]\<close>, \<open>x[1]\<close> is 0, \<open>x[4]\<close> is 1, \<open>x[7]\<close> is 2 and \<open>len(x)\<close> is 9.
\<close>

lemma docstring_sequence_periodic:
  "sequence (periodic_spec 9 [PyInt 0, PyInt 1, PyInt 2]) =
     Inr (Emulated \<lparr>data = [], default_val = PyNone,
            periodic_values = Some [PyInt 0, PyInt 1, PyInt 2],
            default_changed = False, highest_index = 9, period_length = Some 3\<rparr>) \<and>
   map_sum id fst (iter \<lparr>data = [], default_val = PyNone,
            periodic_values = Some [PyInt 0, PyInt 1, PyInt 2],
            default_changed = False, highest_index = 9, period_length = Some 3\<rparr>)
     = Inr [PyInt 0, PyInt 0, PyInt 0, PyInt 1, PyInt 1, PyInt 1, PyInt 2, PyInt 2, PyInt 2] \<and>
   map (\<lambda>i. map_sum id fst (getitem \<lparr>data = [], default_val = PyNone,
            periodic_values = Some [PyInt 0, PyInt 1, PyInt 2],
            default_changed = False, highest_index = 9, period_length = Some 3\<rparr> i)) [1, 4, 7]
     = [Inr (PyInt 0), Inr (PyInt 1), Inr (PyInt 2)] \<and>
   map_sum id fst (builtin_len \<lparr>data = [], default_val = PyNone,
            periodic_values = Some [PyInt 0, PyInt 1, PyInt 2],
            default_changed = False, highest_index = 9, period_length = Some 3\<rparr>) = Inr 9"
  by code_simp

text \<open>
  With \<open>s = _Sequence(default=42)\<close>, \<open>len(s)\<close> is 0, and after \<open>s[1]\<close> and \<open>s[2]\<close> it is 3.
\<close>

lemma docstring_Sequence_default:
  "Sequence_init (PyInt 42) None (- 1) =
     Inr \<lparr>data = [], default_val = PyInt 42, periodic_values = None,
            default_changed = False, highest_index = - 1, period_length = None\<rparr> \<and>
   map_sum id fst (builtin_len \<lparr>data = [], default_val = PyInt 42, periodic_values = None,
            default_changed = False, highest_index = - 1, period_length = None\<rparr>) = Inr 0 \<and>
   reads \<lparr>data = [], default_val = PyInt 42, periodic_values = None,
            default_changed = False, highest_index = - 1, period_length = None\<rparr> [1, 2]
     = Inr \<lparr>data = [], default_val = PyInt 42, periodic_values = None,
            default_changed = False, highest_index = 2, period_length = None\<rparr> \<and>
   map_sum id fst (builtin_len \<lparr>data = [], default_val = PyInt 42, periodic_values = None,
            default_changed = False, highest_index = 2, period_length = None\<rparr>) = Inr 3"
  by code_simp

text \<open>The constructor refuses a default together with periodic values.\<close>

lemma Sequence_init_both:
  "Sequence_init (PyInt 1) (Some [PyInt 0]) 1 = Inl ValueError"
  by code_simp

section \<open>The claims\<close>

text \<open>
  C6. For every list or tuple \<open>c\<close> (a finite iterable that is neither text nor a mapping),
  \<open>sequence(c)\<close> returns \<open>c\<close> itself, unchanged and unwrapped.
\<close>

theorem C6_collection_passes_through:
  "sequence (PyList c) = Inr (Original (PyList c)) \<and>
   sequence (PyTuple c) = Inr (Original (PyTuple c))"
  by (simp add: sequence_def)

text \<open>
  C3. For every scalar, string or \<open>None\<close> value \<open>v\<close>, \<open>sequence(v)\<close> is a \<open>_Sequence\<close> in
  default mode, and reading it at any index \<open>i \<ge> 0\<close> returns \<open>v\<close> itself, whatever indices
  \<open>ks\<close> were read before: \<open>read(i) = read(j) = v\<close>.
\<close>

theorem C3_scalar_broadcast:
  assumes "0 \<le> i"
  shows "\<exists>s s' s''. sequence (Value v) = Inr (Emulated s) \<and> \<not> truthy (periodic_values s) \<and>
           reads s ks = Inr s' \<and> getitem s' i = Inr (v, s'')"
proof -
  let ?s = "\<lparr>data = [], default_val = v, periodic_values = None,
              default_changed = False, highest_index = - 1, period_length = None\<rparr>"
  have np: "\<not> truthy (periodic_values ?s)" by simp
  let ?s' = "?s\<lparr>highest_index := fold max ks (highest_index ?s)\<rparr>"
  have "\<not> truthy (periodic_values ?s')" by simp
  then have "getitem ?s' i = Inr (default_val ?s', ?s'\<lparr>highest_index := max (highest_index ?s') i\<rparr>)"
    by (rule getitem_default)
  then have "getitem ?s' i = Inr (v, ?s'\<lparr>highest_index := max (highest_index ?s') i\<rparr>)" by simp
  with sequence_Value [of v] np reads_default [OF np, of ks] show ?thesis by blast
qed

theorem C3_scalar_broadcast_witness:
  "(0::int) \<le> 10 \<and>
   (\<exists>s s' s''. sequence (Value (PyInt 10)) = Inr (Emulated s) \<and> \<not> truthy (periodic_values s) \<and>
           reads s [0] = Inr s' \<and> getitem s' 10 = Inr (PyInt 10, s''))"
proof -
  have h: "(0::int) \<le> 10" by simp
  show ?thesis using h C3_scalar_broadcast [OF h, of "PyInt 10" "[0]"] by simp
qed

text \<open>
  C8. \<open>__len__\<close> and \<open>__iter__\<close> only observe: in either mode they leave every attribute of
  the object as it was, the highest index included, whether called directly or through
  \<open>len(x)\<close>, and whatever they return. Only \<open>__getitem__\<close> assigns to it.
\<close>

theorem C8_len_iter_observe_only:
  "snd (len s) = s \<and>
   (iter s = Inl TypeError \<or> iter s = Inl OverflowError \<or> (\<exists>xs. iter s = Inr (xs, s))) \<and>
   (builtin_len s = Inl ValueError \<or> builtin_len s = Inl OverflowError \<or>
      (\<exists>n. builtin_len s = Inr (n, s)))"
  by (simp add: len_def iter_def repeat_def builtin_len_def split: option.splits)

lemma len_after_reads:
  assumes "\<not> truthy (periodic_values s)"
  shows "reads s ks = Inr (s\<lparr>highest_index := Max (insert (highest_index s) (set ks))\<rparr>)"
    and "fst (len (s\<lparr>highest_index := Max (insert (highest_index s) (set ks))\<rparr>)) =
           max (int (length (data s))) (Max (insert (highest_index s) (set ks)) + 1)"
  using assms reads_default [OF assms, of ks] by (simp_all add: fold_max_Max len_def)

lemma builtin_len_default:
  assumes "\<not> truthy (periodic_values s)"
  shows "builtin_len s =
     (if max (int (length (data s))) (highest_index s + 1) \<le> maxsize
      then Inr (max (int (length (data s))) (highest_index s + 1), s)
      else Inl OverflowError)"
proof -
  have "0 \<le> max (int (length (data s))) (highest_index s + 1)" by simp
  then show ?thesis
    using assms by (simp add: builtin_len_def len_default not_less [symmetric])
qed

text \<open>
  C4, as stated: on every object in default mode the reported length is the larger of
  the materialised length and one more than the highest index read. It fails on
  \<open>sequence(42)\<close> after a read at index \<open>2 ^ 63 - 1\<close>: \<open>__len__\<close> returns \<open>2 ^ 63\<close>, which is
  above \<open>sys.maxsize\<close>, and \<open>len(x)\<close> raises \<open>OverflowError\<close> instead of reporting it.
\<close>

theorem C4_counterexample:
  "sequence (Value (PyInt 42)) =
     Inr (Emulated \<lparr>data = [], default_val = PyInt 42, periodic_values = None,
            default_changed = False, highest_index = - 1, period_length = None\<rparr>) \<and>
   reads \<lparr>data = [], default_val = PyInt 42, periodic_values = None,
            default_changed = False, highest_index = - 1, period_length = None\<rparr>
         [9223372036854775807]
     = Inr \<lparr>data = [], default_val = PyInt 42, periodic_values = None,
            default_changed = False, highest_index = 9223372036854775807,
            period_length = None\<rparr> \<and>
   builtin_len \<lparr>data = [], default_val = PyInt 42, periodic_values = None,
            default_changed = False, highest_index = 9223372036854775807,
            period_length = None\<rparr>
     = Inl OverflowError"
  by code_simp

text \<open>
  C4, amended. In default mode the number \<open>__len__\<close> returns is the larger of the
  materialised length (\<open>len(self.data)\<close>) and one more than the highest index read so far,
  and \<open>len(x)\<close> reports that number whenever it is at most \<open>sys.maxsize\<close>; above it
  \<open>len(x)\<close> raises \<open>OverflowError\<close>. On a fresh object the length is 0; it depends only on
  which indices were read, not on their order; it never decreases by reading; on a fresh
  object read at indices below \<open>sys.maxsize\<close> it is one more than the highest of them (or
  0 when all are negative), and reading 2 and then 5 gives 6.
\<close>

theorem C4_broadcast_length:
  assumes "\<not> truthy (periodic_values s)"
  shows "(\<exists>s'. reads s ks = Inr s' \<and>
            fst (len s') = max (int (length (data s))) (Max (insert (highest_index s) (set ks)) + 1) \<and>
            builtin_len s' =
              (if max (int (length (data s))) (Max (insert (highest_index s) (set ks)) + 1) \<le> maxsize
               then Inr (max (int (length (data s))) (Max (insert (highest_index s) (set ks)) + 1), s')
               else Inl OverflowError) \<and>
            fst (len s) \<le> fst (len s') \<and>
            (\<forall>ks'. set ks' = set ks \<longrightarrow> reads s ks' = Inr s')) \<and>
         (\<exists>s0 s1 s2. sequence (Value v) = Inr (Emulated s0) \<and>
            fst (len s0) = 0 \<and> builtin_len s0 = Inr (0, s0) \<and>
            reads s0 ks = Inr s1 \<and>
            fst (len s1) = (if ks = [] then 0 else max 0 (Max (set ks) + 1)) \<and>
            ((\<forall>k\<in>set ks. k < maxsize) \<longrightarrow>
               builtin_len s1 = Inr (if ks = [] then 0 else max 0 (Max (set ks) + 1), s1)) \<and>
            reads s0 [2, 5] = Inr s2 \<and> fst (len s2) = 6 \<and> builtin_len s2 = Inr (6, s2))"
proof (intro conjI)
  let ?M = "max (int (length (data s))) (Max (insert (highest_index s) (set ks)) + 1)"
  let ?s' = "s\<lparr>highest_index := Max (insert (highest_index s) (set ks))\<rparr>"
  have r: "reads s ks = Inr ?s'" by (rule len_after_reads(1) [OF assms])
  have l: "fst (len ?s') = ?M" by (rule len_after_reads(2) [OF assms])
  have np': "\<not> truthy (periodic_values ?s')" using assms by simp
  have b: "builtin_len ?s' = (if ?M \<le> maxsize then Inr (?M, ?s') else Inl OverflowError)"
    using builtin_len_default [OF np'] by simp
  have "highest_index s + 1 \<le> Max (insert (highest_index s) (set ks)) + 1" by simp
  then have "max (int (length (data s))) (highest_index s + 1) \<le> ?M"
    by (intro max.mono) simp_all
  then have m: "fst (len s) \<le> fst (len ?s')"
    by (simp only: l len_default [OF assms] fst_conv)
  have o: "\<forall>ks'. set ks' = set ks \<longrightarrow> reads s ks' = Inr ?s'"
    using len_after_reads(1) [OF assms] by metis
  from r l b m o show "\<exists>s'. reads s ks = Inr s' \<and>
            fst (len s') = ?M \<and>
            builtin_len s' = (if ?M \<le> maxsize then Inr (?M, s') else Inl OverflowError) \<and>
            fst (len s) \<le> fst (len s') \<and>
            (\<forall>ks'. set ks' = set ks \<longrightarrow> reads s ks' = Inr s')" by blast
next
  let ?s0 = "\<lparr>data = [], default_val = v, periodic_values = None,
              default_changed = False, highest_index = - 1, period_length = None\<rparr>"
  have np: "\<not> truthy (periodic_values ?s0)" by simp
  let ?s1 = "?s0\<lparr>highest_index := Max (insert (highest_index ?s0) (set ks))\<rparr>"
  let ?s2 = "?s0\<lparr>highest_index := Max (insert (highest_index ?s0) (set [2, 5]))\<rparr>"
  let ?n1 = "if ks = [] then 0 else max 0 (Max (set ks) + 1)"
  have l0: "fst (len ?s0) = 0" by (simp add: len_def)
  have b0: "builtin_len ?s0 = Inr (0, ?s0)"
    using builtin_len_default [OF np] by (simp add: maxsize_def)
  have r1: "reads ?s0 ks = Inr ?s1" by (rule len_after_reads(1) [OF np])
  have "fst (len ?s1) = max 0 (Max (insert (- 1) (set ks)) + 1)"
    using len_after_reads(2) [OF np, of ks] by simp
  moreover have "ks \<noteq> [] \<Longrightarrow> Max (insert (- 1) (set ks)) = max (- 1) (Max (set ks))"
    by simp
  ultimately have l1: "fst (len ?s1) = ?n1"
    by auto
  have np1: "\<not> truthy (periodic_values ?s1)" by simp
  have b1: "(\<forall>k\<in>set ks. k < maxsize) \<longrightarrow> builtin_len ?s1 = Inr (?n1, ?s1)"
  proof
    assume bound: "\<forall>k\<in>set ks. k < maxsize"
    have "?n1 \<le> maxsize"
    proof (cases "ks = []")
      case True
      then show ?thesis by (simp add: maxsize_def)
    next
      case False
      then have "Max (set ks) \<in> set ks" by (intro Max_in) simp_all
      then have "Max (set ks) < maxsize" using bound by blast
      then have "Max (set ks) + 1 \<le> maxsize" by linarith
      moreover have "0 \<le> maxsize" by (simp add: maxsize_def)
      ultimately have "max 0 (Max (set ks) + 1) \<le> maxsize" by (intro max.boundedI)
      then show ?thesis using False by (simp only: if_False)
    qed
    moreover have "max (int (length (data ?s1))) (highest_index ?s1 + 1) = ?n1"
      using l1 by (simp only: len_default [OF np1] fst_conv)
    ultimately show "builtin_len ?s1 = Inr (?n1, ?s1)"
      by (simp only: builtin_len_default [OF np1] if_True)
  qed
  have r2: "reads ?s0 [2, 5] = Inr ?s2" by (rule len_after_reads(1) [OF np])
  have l2: "fst (len ?s2) = 6" using len_after_reads(2) [OF np, of "[2, 5]"] by simp
  have np2: "\<not> truthy (periodic_values ?s2)" by simp
  have b2: "builtin_len ?s2 = Inr (6, ?s2)"
    using builtin_len_default [OF np2] by (simp add: maxsize_def)
  from sequence_Value [of v] l0 b0 r1 l1 b1 r2 l2 b2
  show "\<exists>s0 s1 s2. sequence (Value v) = Inr (Emulated s0) \<and>
            fst (len s0) = 0 \<and> builtin_len s0 = Inr (0, s0) \<and>
            reads s0 ks = Inr s1 \<and>
            fst (len s1) = ?n1 \<and>
            ((\<forall>k\<in>set ks. k < maxsize) \<longrightarrow> builtin_len s1 = Inr (?n1, s1)) \<and>
            reads s0 [2, 5] = Inr s2 \<and> fst (len s2) = 6 \<and> builtin_len s2 = Inr (6, s2)"
    by blast
qed

theorem C4_broadcast_length_witness:
  "\<not> truthy (periodic_values \<lparr>data = [], default_val = PyInt 42, periodic_values = None,
           default_changed = False, highest_index = - 1, period_length = None\<rparr>) \<and>
   (5::int) < maxsize \<and> (2::int) < maxsize \<and>
   (\<exists>s'. reads \<lparr>data = [], default_val = PyInt 42, periodic_values = None,
           default_changed = False, highest_index = - 1, period_length = None\<rparr> [5, 2] = Inr s' \<and>
      fst (len s') = 6 \<and> builtin_len s' = Inr (6, s') \<and>
      reads \<lparr>data = [], default_val = PyInt 42, periodic_values = None,
           default_changed = False, highest_index = - 1, period_length = None\<rparr> [2, 5, 2] = Inr s') \<and>
   (\<exists>s0 s1. sequence (Value (PyInt 42)) = Inr (Emulated s0) \<and> reads s0 [5, 2] = Inr s1 \<and>
      builtin_len s1 = Inr (6, s1))"
proof -
  let ?s = "\<lparr>data = [], default_val = PyInt 42, periodic_values = None,
           default_changed = False, highest_index = - 1, period_length = None\<rparr>"
  have np: "\<not> truthy (periodic_values ?s)" by simp
  have bd: "\<forall>k\<in>set [5, 2]. k < maxsize" by (simp add: maxsize_def)
  have bd2: "(5::int) < maxsize \<and> (2::int) < maxsize" by (simp add: maxsize_def)
  note inst = C4_broadcast_length [OF np, of "[5, 2]" "PyInt 42"]
  from inst [THEN conjunct1] obtain s' where a: "reads ?s [5, 2] = Inr s'"
    and b: "fst (len s') = max (int (length (data ?s))) (Max (insert (highest_index ?s) (set [5, 2])) + 1)"
    and c: "builtin_len s' =
              (if max (int (length (data ?s))) (Max (insert (highest_index ?s) (set [5, 2])) + 1) \<le> maxsize
               then Inr (max (int (length (data ?s))) (Max (insert (highest_index ?s) (set [5, 2])) + 1), s')
               else Inl OverflowError)"
    and d: "\<forall>ks'. set ks' = set [5, 2] \<longrightarrow> reads ?s ks' = Inr s'"
    by blast
  have six: "fst (len s') = 6" using b by simp
  have bsix: "builtin_len s' = Inr (6, s')" using c by (simp add: maxsize_def)
  have "set [2, 5, 2] = set [5, 2::int]" by auto
  then have e: "reads ?s [2, 5, 2] = Inr s'" using d by blast
  have fresh: "\<exists>s0 s1. sequence (Value (PyInt 42)) = Inr (Emulated s0) \<and> reads s0 [5, 2] = Inr s1 \<and>
      builtin_len s1 = Inr (6, s1)"
    using inst [THEN conjunct2] bd by (clarsimp simp add: maxsize_def simp del: reads.simps)
  have "\<exists>s'. reads ?s [5, 2] = Inr s' \<and> fst (len s') = 6 \<and> builtin_len s' = Inr (6, s') \<and>
      reads ?s [2, 5, 2] = Inr s'"
    using a six bsix e by (intro exI [of _ s']) (simp only: simp_thms)
  with np bd2 fresh show ?thesis by (simp only: simp_thms)
qed

subsection \<open>Floor division by a positive width\<close>

lemma le_div_iff_mult_le:
  fixes i w n :: int
  assumes "0 < w"
  shows "n \<le> i div w \<longleftrightarrow> n * w \<le> i"
proof
  assume "n \<le> i div w"
  then have "n * w \<le> (i div w) * w" using assms by (simp add: mult_right_mono)
  moreover have "0 \<le> i mod w" using assms by simp
  moreover have "i = (i div w) * w + i mod w" by simp
  ultimately show "n * w \<le> i" by linarith
next
  assume a: "n * w \<le> i"
  show "n \<le> i div w"
  proof (rule ccontr)
    assume "\<not> n \<le> i div w"
    then have "i div w + 1 \<le> n" by simp
    then have "(i div w + 1) * w \<le> n * w" using assms by (simp only: mult_right_mono less_imp_le)
    moreover have "(i div w + 1) * w = (i div w) * w + w" by (simp add: distrib_right)
    moreover have "i = (i div w) * w + i mod w" by simp
    moreover have "i mod w < w" using assms by simp
    ultimately show False using a by linarith
  qed
qed

lemma div_less_iff_less_mult:
  fixes i w n :: int
  assumes "0 < w"
  shows "i div w < n \<longleftrightarrow> i < n * w"
  using le_div_iff_mult_le [OF assms, of n i] by linarith

lemma width_pos:
  fixes i w n :: int
  assumes "- n * w \<le> i" "i \<le> - 1" "0 < n"
  shows "0 < w"
proof (rule ccontr)
  assume "\<not> 0 < w"
  then have "w \<le> 0" by simp
  then have "n * w \<le> 0" using assms(3) by (simp add: mult_le_0_iff)
  then show False using assms(1,2) by simp
qed

subsection \<open>Which indices a periodic object accepts\<close>

lemma getitem_periodic_inside:
  assumes "periodic_values s = Some p" "p \<noteq> []" "period_length s = Some w"
    and "0 < w" "0 \<le> i" "i < int (length p) * w"
  shows "getitem s i = Inr (p ! nat (i div w), s)"
proof -
  have "0 \<le> i div w" using assms(4,5) by (simp add: pos_imp_zdiv_nonneg_iff)
  moreover have "i div w < int (length p)"
    using assms(4,6) by (simp add: div_less_iff_less_mult)
  ultimately show ?thesis
    using assms(4) by (simp add: getitem_periodic [OF assms(1-3)] list_getitem_def)
qed

lemma getitem_periodic_wraps:
  assumes "periodic_values s = Some p" "p \<noteq> []" "period_length s = Some w"
    and "- int (length p) * w \<le> i" "i \<le> - 1"
  shows "getitem s i = Inr (p ! nat (int (length p) + i div w), s)"
proof -
  have w: "0 < w" using assms(2) by (intro width_pos [OF assms(4,5)]) simp
  have "- int (length p) \<le> i div w" using w assms(4) by (simp add: le_div_iff_mult_le)
  moreover have "i div w < 0" using w assms(5) by (simp add: div_less_iff_less_mult)
  ultimately show ?thesis
    using w by (simp add: getitem_periodic [OF assms(1-3)] list_getitem_def)
qed

lemma getitem_periodic_outside:
  assumes "periodic_values s = Some p" "p \<noteq> []" "period_length s = Some w"
    and "0 < w" "int (length p) * w \<le> i \<or> i < - int (length p) * w"
  shows "getitem s i = Inl IndexError"
proof -
  have "int (length p) \<le> i div w \<or> i div w < - int (length p)"
    using assms(4,5) by (simp add: le_div_iff_mult_le div_less_iff_less_mult)
  then show ?thesis
    using assms(4) by (auto simp add: getitem_periodic [OF assms(1-3)] list_getitem_def)
qed

text \<open>
  C10, as stated: reading a negative index never raises in either mode. It fails on the
  periodic object of \<open>{"len": 9, "values": [0, 1, 2]}\<close>: index \<open>-10\<close> gives period
  \<open>-10 // 3 = -4\<close>, and \<open>periodic_values[-4]\<close> raises \<open>IndexError\<close>.
\<close>

theorem C10_counterexample:
  "sequence (periodic_spec 9 [PyInt 0, PyInt 1, PyInt 2]) =
     Inr (Emulated \<lparr>data = [], default_val = PyNone,
            periodic_values = Some [PyInt 0, PyInt 1, PyInt 2],
            default_changed = False, highest_index = 9, period_length = Some 3\<rparr>) \<and>
   getitem \<lparr>data = [], default_val = PyNone,
            periodic_values = Some [PyInt 0, PyInt 1, PyInt 2],
            default_changed = False, highest_index = 9, period_length = Some 3\<rparr> (- 10)
     = Inl IndexError"
  by code_simp

text \<open>
  C10, amended. In default mode reading a negative index never raises: it returns the
  default value and leaves the reported length unchanged. In periodic mode with pattern
  \<open>p\<close> and period width \<open>w\<close>, every index \<open>i\<close> with \<open>-len(p) * w \<le> i \<le> -1\<close> wraps
  around and returns \<open>p[len(p) + i // w]\<close>; for \<open>w > 0\<close>, every index below
  \<open>-len(p) * w\<close> raises \<open>IndexError\<close>.
\<close>

theorem C10_negative_index:
  "(\<not> truthy (periodic_values s) \<and> i < 0 \<longrightarrow>
      (\<exists>s'. getitem s i = Inr (default_val s, s') \<and> fst (len s') = fst (len s))) \<and>
   (periodic_values s = Some p \<and> p \<noteq> [] \<and> period_length s = Some w \<and>
      - int (length p) * w \<le> i \<and> i \<le> - 1 \<longrightarrow>
      getitem s i = Inr (p ! nat (int (length p) + i div w), s)) \<and>
   (periodic_values s = Some p \<and> p \<noteq> [] \<and> period_length s = Some w \<and>
      0 < w \<and> i < - int (length p) * w \<longrightarrow>
      getitem s i = Inl IndexError)"
proof (intro conjI impI)
  assume a: "\<not> truthy (periodic_values s) \<and> i < 0"
  let ?s' = "s\<lparr>highest_index := max (highest_index s) i\<rparr>"
  have g: "getitem s i = Inr (default_val s, ?s')" using a by (simp add: getitem_default)
  have "max (int (length (data s))) (max (highest_index s) i + 1)
      = max (int (length (data s))) (highest_index s + 1)"
    using a by (simp add: max_def)
  then have "fst (len ?s') = fst (len s)" using a by (simp add: len_def)
  with g show "\<exists>s'. getitem s i = Inr (default_val s, s') \<and> fst (len s') = fst (len s)"
    by blast
next
  assume "periodic_values s = Some p \<and> p \<noteq> [] \<and> period_length s = Some w \<and>
      - int (length p) * w \<le> i \<and> i \<le> - 1"
  then show "getitem s i = Inr (p ! nat (int (length p) + i div w), s)"
    by (simp add: getitem_periodic_wraps)
next
  assume "periodic_values s = Some p \<and> p \<noteq> [] \<and> period_length s = Some w \<and>
      0 < w \<and> i < - int (length p) * w"
  then show "getitem s i = Inl IndexError"
    by (simp add: getitem_periodic_outside)
qed

theorem C10_negative_index_witness:
  "(\<exists>s'. getitem \<lparr>data = [], default_val = PyInt 42, periodic_values = None,
              default_changed = False, highest_index = 4, period_length = None\<rparr> (- 3)
            = Inr (PyInt 42, s') \<and> fst (len s') = 5) \<and>
   getitem \<lparr>data = [], default_val = PyNone,
            periodic_values = Some [PyInt 0, PyInt 1, PyInt 2],
            default_changed = False, highest_index = 9, period_length = Some 3\<rparr> (- 1)
     = Inr (PyInt 2, \<lparr>data = [], default_val = PyNone,
            periodic_values = Some [PyInt 0, PyInt 1, PyInt 2],
            default_changed = False, highest_index = 9, period_length = Some 3\<rparr>) \<and>
   getitem \<lparr>data = [], default_val = PyNone,
            periodic_values = Some [PyInt 0, PyInt 1, PyInt 2],
            default_changed = False, highest_index = 9, period_length = Some 3\<rparr> (- 12)
     = Inl IndexError"
  using
    C10_negative_index [of "\<lparr>data = [], default_val = PyInt 42, periodic_values = None,
              default_changed = False, highest_index = 4, period_length = None\<rparr>" "- 3"
              "[]" 1]
    C10_negative_index [of "\<lparr>data = [], default_val = PyNone,
            periodic_values = Some [PyInt 0, PyInt 1, PyInt 2],
            default_changed = False, highest_index = 9, period_length = Some 3\<rparr>" "- 1"
            "[PyInt 0, PyInt 1, PyInt 2]" 3]
    C10_negative_index [of "\<lparr>data = [], default_val = PyNone,
            periodic_values = Some [PyInt 0, PyInt 1, PyInt 2],
            default_changed = False, highest_index = 9, period_length = Some 3\<rparr>" "- 12"
            "[PyInt 0, PyInt 1, PyInt 2]" 3]
  by (simp add: len_def)

text \<open>
  C7, as stated: a read fails with a range error for every negative index in either mode.
  It fails on \<open>sequence(42)\<close>: index \<open>-1\<close> returns 42 and raises nothing.
\<close>

theorem C7_counterexample:
  "sequence (Value (PyInt 42)) =
     Inr (Emulated \<lparr>data = [], default_val = PyInt 42, periodic_values = None,
            default_changed = False, highest_index = - 1, period_length = None\<rparr>) \<and>
   getitem \<lparr>data = [], default_val = PyInt 42, periodic_values = None,
            default_changed = False, highest_index = - 1, period_length = None\<rparr> (- 1)
     = Inr (PyInt 42, \<lparr>data = [], default_val = PyInt 42, periodic_values = None,
            default_changed = False, highest_index = - 1, period_length = None\<rparr>)"
  by code_simp

text \<open>
  C7, amended. On the periodic object built from \<open>{"len": L, "values": p}\<close>, with \<open>p\<close>
  not empty and \<open>L\<close> a positive multiple of \<open>len(p)\<close> of at most \<open>2 ^ 53 * len(p)\<close>, a read
  raises \<open>IndexError\<close> at every index at or beyond \<open>L\<close> and at every index below \<open>-L\<close>, and
  at no other index: the indices from \<open>-L\<close> to \<open>-1\<close> wrap around. (In default mode no
  index raises.)
\<close>

theorem C7_periodic_index_error:
  assumes "p \<noteq> []" "L mod int (length p) = 0" "0 < L" "L \<le> 2 ^ 53 * int (length p)"
  shows "\<exists>s. sequence (periodic_spec L p) = Inr (Emulated s) \<and>
           (\<forall>i. L \<le> i \<or> i < - L \<longrightarrow> getitem s i = Inl IndexError) \<and>
           (\<forall>i. - L \<le> i \<and> i < L \<longrightarrow> (\<exists>v. getitem s i = Inr (v, s)))"
proof -
  define n where "n = int (length p)"
  define w where "w = L div n"
  let ?s = "\<lparr>data = [], default_val = PyNone, periodic_values = Some p,
            default_changed = False, highest_index = L, period_length = Some w\<rparr>"
  have "\<bar>L\<bar> \<le> 2 ^ 53 * int (length p)" using assms(3,4) by simp
  then have sq: "sequence (periodic_spec L p) = Inr (Emulated ?s)"
    using sequence_periodic_exact [OF assms(1,2)] by (simp add: w_def n_def)
  have "n dvd L" using assms(2) by (simp add: n_def mod_eq_0_iff_dvd)
  then have L: "n * w = L" by (simp add: w_def)
  have npos: "0 < n" using assms(1) by (simp add: n_def)
  have wpos: "0 < w"
  proof (rule ccontr)
    assume "\<not> 0 < w"
    then have "n * w \<le> 0" using npos by (simp add: mult_le_0_iff)
    then show False using L assms(3) by simp
  qed
  have pv: "periodic_values ?s = Some p" "period_length ?s = Some w" by simp_all
  have out: "\<forall>i. L \<le> i \<or> i < - L \<longrightarrow> getitem ?s i = Inl IndexError"
    using getitem_periodic_outside [OF pv(1) assms(1) pv(2) wpos] L by (simp add: n_def)
  have ins: "\<forall>i. - L \<le> i \<and> i < L \<longrightarrow> (\<exists>v. getitem ?s i = Inr (v, ?s))"
  proof (intro allI impI)
    fix i assume i: "- L \<le> i \<and> i < L"
    show "\<exists>v. getitem ?s i = Inr (v, ?s)"
    proof (cases "0 \<le> i")
      case True
      then show ?thesis
        using getitem_periodic_inside [OF pv(1) assms(1) pv(2) wpos, of i] i L
        by (simp add: n_def)
    next
      case False
      then show ?thesis
        using getitem_periodic_wraps [OF pv(1) assms(1) pv(2), of i] i L
        by (simp add: n_def)
    qed
  qed
  from sq out ins show ?thesis by blast
qed

theorem C7_periodic_index_error_witness:
  "[PyInt 0, PyInt 1, PyInt 2] \<noteq> [] \<and> (9::int) mod int (length [PyInt 0, PyInt 1, PyInt 2]) = 0 \<and>
   (0::int) < 9 \<and> (9::int) \<le> 2 ^ 53 * int (length [PyInt 0, PyInt 1, PyInt 2]) \<and>
   (\<exists>s. sequence (periodic_spec 9 [PyInt 0, PyInt 1, PyInt 2]) = Inr (Emulated s) \<and>
        getitem s 9 = Inl IndexError \<and> getitem s (- 10) = Inl IndexError \<and>
        (\<exists>v. getitem s (- 9) = Inr (v, s)))"
proof -
  have h: "[PyInt 0, PyInt 1, PyInt 2] \<noteq> []" "(9::int) mod int (length [PyInt 0, PyInt 1, PyInt 2]) = 0"
    "(0::int) < 9" "(9::int) \<le> 2 ^ 53 * int (length [PyInt 0, PyInt 1, PyInt 2])"
    by simp_all
  obtain s where s: "sequence (periodic_spec 9 [PyInt 0, PyInt 1, PyInt 2]) = Inr (Emulated s)"
      "\<forall>i. 9 \<le> i \<or> i < - 9 \<longrightarrow> getitem s i = Inl IndexError"
      "\<forall>i. - 9 \<le> i \<and> i < 9 \<longrightarrow> (\<exists>v. getitem s i = Inr (v, s))"
    using C7_periodic_index_error [OF h] by blast
  have "getitem s 9 = Inl IndexError" "getitem s (- 10) = Inl IndexError"
    "\<exists>v. getitem s (- 9) = Inr (v, s)"
    using s(2,3) by simp_all
  with h s(1) show ?thesis by blast
qed

text \<open>
  Within the range where the division in \<open>__init__\<close> is exact, the periodic object does
  what its docstring says: the period width is \<open>L / len(p)\<close>, index \<open>i\<close> of \<open>0 \<le> i < L\<close>
  reads \<open>p[i // width]\<close>, and \<open>__len__\<close> returns \<open>L\<close>.
\<close>

lemma periodic_read_exact_range:
  assumes "p \<noteq> []" "L mod int (length p) = 0" "\<bar>L\<bar> \<le> 2 ^ 53 * int (length p)"
  shows "\<exists>s. sequence (periodic_spec L p) = Inr (Emulated s) \<and>
           period_length s = Some (L div int (length p)) \<and>
           (\<forall>i. 0 \<le> i \<and> i < L \<longrightarrow>
              getitem s i = Inr (p ! nat (i div (L div int (length p))), s)) \<and>
           fst (len s) = L"
proof -
  let ?n = "int (length p)"
  let ?w = "L div ?n"
  let ?s = "\<lparr>data = [], default_val = PyNone, periodic_values = Some p,
            default_changed = False, highest_index = L, period_length = Some ?w\<rparr>"
  have sq: "sequence (periodic_spec L p) = Inr (Emulated ?s)"
    by (rule sequence_periodic_exact [OF assms])
  have "?n dvd L" using assms(2) by (simp add: mod_eq_0_iff_dvd)
  then have L: "?n * ?w = L" by simp
  have npos: "0 < ?n" using assms(1) by simp
  have pv: "periodic_values ?s = Some p" "period_length ?s = Some ?w" by simp_all
  have rd: "\<forall>i. 0 \<le> i \<and> i < L \<longrightarrow> getitem ?s i = Inr (p ! nat (i div ?w), ?s)"
  proof (intro allI impI)
    fix i assume i: "0 \<le> i \<and> i < L"
    have wpos: "0 < ?w"
    proof (rule ccontr)
      assume "\<not> 0 < ?w"
      then have "?n * ?w \<le> 0" using npos by (simp only: mult_le_0_iff) simp
      then show False using L i by simp
    qed
    have "i < ?n * ?w" using i L by simp
    with i show "getitem ?s i = Inr (p ! nat (i div ?w), ?s)"
      by (intro getitem_periodic_inside [OF pv(1) assms(1) pv(2) wpos]) simp_all
  qed
  from assms(1) obtain y ys where "p = y # ys" by (cases p) auto
  then have ln: "fst (len ?s) = L" by (simp add: len_def)
  from sq pv(2) rd ln show ?thesis by blast
qed

text \<open>
  C2. The claim is that every periodic object built from \<open>{"len": L, "values": p}\<close>, \<open>L\<close> a
  multiple of \<open>len(p)\<close>, has period width \<open>L / len(p)\<close> and reads \<open>p[i // width]\<close> at every
  \<open>0 \<le> i < L\<close>. \<open>__init__\<close> computes the width as \<open>int(highest_index / len(periodic_values))\<close>,
  through a float. For \<open>{"len": 2 ^ 53 + 1, "values": [7]}\<close> the float quotient is
  \<open>2 ^ 53\<close>, so the width is \<open>2 ^ 53\<close>, not \<open>2 ^ 53 + 1\<close>, and reading index \<open>2 ^ 53\<close>, which is
  below the length, asks for \<open>periodic_values[1]\<close> and raises \<open>IndexError\<close> where the
  claim promises \<open>p[0] = 7\<close>.
\<close>

theorem C2_failing_input:
  "sequence (periodic_spec 9007199254740993 [PyInt 7]) =
     Inr (Emulated \<lparr>data = [], default_val = PyNone, periodic_values = Some [PyInt 7],
            default_changed = False, highest_index = 9007199254740993,
            period_length = Some 9007199254740992\<rparr>) \<and>
   9007199254740993 mod int (length [PyInt 7]) = 0 \<and>
   (0::int) \<le> 9007199254740992 \<and> (9007199254740992::int) < 9007199254740993 \<and>
   getitem \<lparr>data = [], default_val = PyNone, periodic_values = Some [PyInt 7],
            default_changed = False, highest_index = 9007199254740993,
            period_length = Some 9007199254740992\<rparr> 9007199254740992
     = Inl IndexError"
  by code_simp

lemma length_concat_replicate: "length (concat (map (replicate k) xs)) = length xs * k"
  by (induction xs) simp_all

text \<open>
  C5, as stated: iterating a periodic object yields \<open>total_length\<close> elements. It fails on
  \<open>{"len": -3, "values": [0, 1, 2]}\<close>, which passes the divisibility check: the period
  width is \<open>-1\<close>, \<open>range(-1)\<close> is empty, and the iteration yields nothing while the length
  attribute is \<open>-3\<close>.
\<close>

theorem C5_counterexample:
  "sequence (periodic_spec (- 3) [PyInt 0, PyInt 1, PyInt 2]) =
     Inr (Emulated \<lparr>data = [], default_val = PyNone,
            periodic_values = Some [PyInt 0, PyInt 1, PyInt 2],
            default_changed = False, highest_index = - 3, period_length = Some (- 1)\<rparr>) \<and>
   iter \<lparr>data = [], default_val = PyNone,
            periodic_values = Some [PyInt 0, PyInt 1, PyInt 2],
            default_changed = False, highest_index = - 3, period_length = Some (- 1)\<rparr>
     = Inr ([], \<lparr>data = [], default_val = PyNone,
            periodic_values = Some [PyInt 0, PyInt 1, PyInt 2],
            default_changed = False, highest_index = - 3, period_length = Some (- 1)\<rparr>) \<and>
   int (length ([] :: pyval list)) \<noteq> - 3"
  by code_simp

text \<open>
  C5, amended. On the periodic object built from \<open>{"len": L, "values": p}\<close>, with \<open>p\<close> not
  empty and \<open>L\<close> a non-negative multiple of \<open>len(p)\<close> of at most \<open>2 ^ 53 * len(p)\<close>,
  \<open>__iter__\<close> yields each element of \<open>p\<close>, in order, \<open>L / len(p)\<close> times, \<open>L\<close> elements in
  all, and leaves the object as it was, so that a second call yields the same. On an
  object in default mode whose count \<open>highest_index + 1\<close> fits the index type (at most
  \<open>sys.maxsize\<close>, at least \<open>-sys.maxsize - 1\<close>) \<open>__iter__\<close> yields that many copies of the
  default value and also returns the object unchanged, so that two calls with no read
  between them yield the same; outside that range \<open>itertools.repeat\<close> raises
  \<open>OverflowError\<close>, on every call.
\<close>

theorem C5_iter_restartable:
  "(p \<noteq> [] \<and> L mod int (length p) = 0 \<and> 0 \<le> L \<and> L \<le> 2 ^ 53 * int (length p) \<longrightarrow>
      (\<exists>s xs. sequence (periodic_spec L p) = Inr (Emulated s) \<and>
         xs = concat (map (replicate (nat (L div int (length p)))) p) \<and>
         int (length xs) = L \<and>
         iter s = Inr (xs, s))) \<and>
   (\<not> truthy (periodic_values s) \<longrightarrow>
      iter s =
        (if maxsize < highest_index s + 1 \<or> highest_index s + 1 < - maxsize - 1
         then Inl OverflowError
         else Inr (replicate (nat (highest_index s + 1)) (default_val s), s)))"
proof (intro conjI impI)
  assume a: "p \<noteq> [] \<and> L mod int (length p) = 0 \<and> 0 \<le> L \<and> L \<le> 2 ^ 53 * int (length p)"
  let ?n = "int (length p)"
  let ?w = "L div ?n"
  let ?s = "\<lparr>data = [], default_val = PyNone, periodic_values = Some p,
            default_changed = False, highest_index = L, period_length = Some ?w\<rparr>"
  let ?xs = "concat (map (replicate (nat ?w)) p)"
  have "\<bar>L\<bar> \<le> 2 ^ 53 * ?n" using a by simp
  then have sq: "sequence (periodic_spec L p) = Inr (Emulated ?s)"
    using a by (intro sequence_periodic_exact) simp_all
  have "?n dvd L" using a by (simp add: mod_eq_0_iff_dvd)
  then have L: "?n * ?w = L" by simp
  have w0: "0 \<le> ?w" using a by (simp add: pos_imp_zdiv_nonneg_iff)
  have "length ?xs = length p * nat ?w"
    by (rule length_concat_replicate)
  then have "int (length ?xs) = ?n * ?w" using w0 by simp
  then have ln: "int (length ?xs) = L" using L by simp
  from a obtain y ys where "p = y # ys" by (cases p) auto
  then have "truthy (periodic_values ?s)" by simp
  then have it: "iter ?s = Inr (?xs, ?s)" by (simp add: iter_def)
  from sq ln it
  show "\<exists>s xs. sequence (periodic_spec L p) = Inr (Emulated s) \<and>
         xs = concat (map (replicate (nat (L div int (length p)))) p) \<and>
         int (length xs) = L \<and> iter s = Inr (xs, s)"
    by blast
next
  assume "\<not> truthy (periodic_values s)"
  then show "iter s =
        (if maxsize < highest_index s + 1 \<or> highest_index s + 1 < - maxsize - 1
         then Inl OverflowError
         else Inr (replicate (nat (highest_index s + 1)) (default_val s), s))"
    by (simp add: iter_def repeat_def)
qed

theorem C5_iter_restartable_witness:
  "(\<exists>s. sequence (periodic_spec 9 [PyInt 0, PyInt 1, PyInt 2]) = Inr (Emulated s) \<and>
      iter s = Inr ([PyInt 0, PyInt 0, PyInt 0, PyInt 1, PyInt 1, PyInt 1,
                     PyInt 2, PyInt 2, PyInt 2], s)) \<and>
   iter \<lparr>data = [], default_val = PyInt 42, periodic_values = None,
           default_changed = False, highest_index = 2, period_length = None\<rparr>
     = Inr ([PyInt 42, PyInt 42, PyInt 42],
            \<lparr>data = [], default_val = PyInt 42, periodic_values = None,
              default_changed = False, highest_index = 2, period_length = None\<rparr>)"
proof -
  have r: "\<And>x::pyval. replicate 3 x = [x, x, x]" by (simp add: numeral_3_eq_3)
  show ?thesis
    using C5_iter_restartable [of "[PyInt 0, PyInt 1, PyInt 2]" 9
      "\<lparr>data = [], default_val = PyInt 42, periodic_values = None,
           default_changed = False, highest_index = 2, period_length = None\<rparr>"]
    by (simp add: r maxsize_def)
qed

text \<open>
  C1, as stated: for every mapping \<open>{"len": L, "values": p}\<close>, \<open>sequence\<close> fails with
  \<open>KeyError\<close> exactly when \<open>L\<close> is not a multiple of \<open>len(p)\<close>, and returns a periodic
  object when it is. It fails on \<open>{"len": 0, "values": []}\<close>: 0 is a multiple of 0, and
  \<open>0 % 0\<close> raises \<open>ZeroDivisionError\<close>.
\<close>

theorem C1_counterexample:
  "int (length ([] :: pyval list)) dvd 0 \<and> sequence (periodic_spec 0 []) = Inl ZeroDivisionError"
  by code_simp

text \<open>
  C1, amended. For every mapping \<open>{"len": L, "values": p}\<close> with \<open>p\<close> not empty and
  \<open>\<bar>L\<bar> < 2 ^ 1023\<close>, \<open>sequence\<close> raises \<open>KeyError\<close>, constructing nothing, exactly when
  \<open>L\<close> is not a multiple of \<open>len(p)\<close>; when it is, \<open>sequence\<close> returns a \<open>_Sequence\<close> in
  periodic mode whose \<open>highest_index\<close> is \<open>L\<close> and whose \<open>periodic_values\<close> is \<open>p\<close>.
\<close>

theorem C1_divisibility_check:
  assumes "p \<noteq> []" "\<bar>L\<bar> < 2 ^ 1023"
  shows "(sequence (periodic_spec L p) = Inl KeyError \<longleftrightarrow> L mod int (length p) \<noteq> 0) \<and>
         (L mod int (length p) \<noteq> 0 \<or>
            (\<exists>s. sequence (periodic_spec L p) = Inr (Emulated s) \<and> truthy (periodic_values s) \<and>
               highest_index s = L \<and> periodic_values s = Some p))"
proof (cases "L mod int (length p) = 0")
  case True
  from sequence_periodic_returns [OF assms(1) True assms(2)] obtain w
    where sq: "sequence (periodic_spec L p) =
      Inr (Emulated \<lparr>data = [], default_val = PyNone, periodic_values = Some p,
            default_changed = False, highest_index = L, period_length = Some w\<rparr>)"
    by blast
  from assms(1) obtain y ys where "p = y # ys" by (cases p) auto
  then have "truthy (Some p)" by simp
  with sq True show ?thesis by simp
next
  case False
  then show ?thesis using assms(1) by (simp add: sequence_periodic_spec)
qed

theorem C1_divisibility_check_witness:
  "[PyInt 0, PyInt 1, PyInt 2] \<noteq> [] \<and> \<bar>10::int\<bar> < 2 ^ 1023 \<and> \<bar>9::int\<bar> < 2 ^ 1023 \<and>
   sequence (periodic_spec 10 [PyInt 0, PyInt 1, PyInt 2]) = Inl KeyError \<and>
   (\<exists>s. sequence (periodic_spec 9 [PyInt 0, PyInt 1, PyInt 2]) = Inr (Emulated s) \<and>
      highest_index s = 9 \<and> periodic_values s = Some [PyInt 0, PyInt 1, PyInt 2])"
proof -
  have ne: "[PyInt 0, PyInt 1, PyInt 2] \<noteq> []" by simp
  have b10: "\<bar>10::int\<bar> < 2 ^ 1023" and b9: "\<bar>9::int\<bar> < 2 ^ 1023" by simp_all
  have "sequence (periodic_spec 10 [PyInt 0, PyInt 1, PyInt 2]) = Inl KeyError"
    using C1_divisibility_check [OF ne b10] by simp
  moreover have "\<exists>s. sequence (periodic_spec 9 [PyInt 0, PyInt 1, PyInt 2]) = Inr (Emulated s) \<and>
      highest_index s = 9 \<and> periodic_values s = Some [PyInt 0, PyInt 1, PyInt 2]"
    using C1_divisibility_check [OF ne b9] by auto
  ultimately show ?thesis using ne b10 b9 by blast
qed

text \<open>
  C9, as stated: nothing but the divisibility check fails when \<open>sequence\<close> is called, and
  in particular a mapping with an empty \<open>values\<close> is accepted there. It fails on
  \<open>{"len": 5, "values": []}\<close>: the check itself divides by \<open>len([]) = 0\<close>, so the call
  raises \<open>ZeroDivisionError\<close>.
\<close>

theorem C9_counterexample:
  "sequence (periodic_spec 5 []) = Inl ZeroDivisionError"
  by code_simp

text \<open>
  C9, amended. On a mapping \<open>{"len": L, "values": p}\<close> with \<open>\<bar>L\<bar> < 2 ^ 1023\<close>, \<open>sequence\<close>
  fails when it is called in two cases only: with \<open>ZeroDivisionError\<close> when \<open>p\<close> is empty,
  and with \<open>KeyError\<close> when \<open>p\<close> is not empty and \<open>L\<close> is not a multiple of \<open>len(p)\<close>.
  Every other such mapping is accepted, a zero or negative \<open>L\<close> included, and so is every
  scalar, string, \<open>None\<close>, list and tuple; an index is checked only when it is read.
\<close>

theorem C9_eager_failures:
  assumes "\<bar>L\<bar> < 2 ^ 1023"
  shows "(p = [] \<longrightarrow> sequence (periodic_spec L p) = Inl ZeroDivisionError) \<and>
         (p \<noteq> [] \<and> L mod int (length p) \<noteq> 0 \<longrightarrow> sequence (periodic_spec L p) = Inl KeyError) \<and>
         (p \<noteq> [] \<and> L mod int (length p) = 0 \<longrightarrow>
            (\<exists>s. sequence (periodic_spec L p) = Inr (Emulated s))) \<and>
         (\<exists>r. sequence (Value v) = Inr r) \<and>
         (\<exists>r. sequence (PyList c) = Inr r) \<and>
         (\<exists>r. sequence (PyTuple c) = Inr r)"
proof (intro conjI impI)
  assume "p = []"
  then show "sequence (periodic_spec L p) = Inl ZeroDivisionError"
    by (simp add: sequence_periodic_spec)
next
  assume "p \<noteq> [] \<and> L mod int (length p) \<noteq> 0"
  then show "sequence (periodic_spec L p) = Inl KeyError"
    by (simp add: sequence_periodic_spec)
next
  assume "p \<noteq> [] \<and> L mod int (length p) = 0"
  then have "p \<noteq> []" and "L mod int (length p) = 0" by simp_all
  then have "\<exists>w. sequence (periodic_spec L p) =
      Inr (Emulated \<lparr>data = [], default_val = PyNone, periodic_values = Some p,
            default_changed = False, highest_index = L, period_length = Some w\<rparr>)"
    using assms by (rule sequence_periodic_returns)
  then show "\<exists>s. sequence (periodic_spec L p) = Inr (Emulated s)" by (elim exE) (rule exI)
next
  show "\<exists>r. sequence (Value v) = Inr r" by (simp add: sequence_Value)
next
  show "\<exists>r. sequence (PyList c) = Inr r" by (simp add: sequence_def)
next
  show "\<exists>r. sequence (PyTuple c) = Inr r" by (simp add: sequence_def)
qed

theorem C9_eager_failures_witness:
  "\<bar>- 9 :: int\<bar> < 2 ^ 1023 \<and> \<bar>10 :: int\<bar> < 2 ^ 1023 \<and>
   sequence (periodic_spec (- 9) []) = Inl ZeroDivisionError \<and>
   sequence (periodic_spec 10 [PyInt 0, PyInt 1, PyInt 2]) = Inl KeyError \<and>
   (\<exists>s. sequence (periodic_spec (- 9) [PyInt 0, PyInt 1, PyInt 2]) = Inr (Emulated s))"
proof -
  have b: "\<bar>- 9 :: int\<bar> < 2 ^ 1023" "\<bar>10 :: int\<bar> < 2 ^ 1023" by simp_all
  note e = C9_eager_failures [OF b(1), of "[]" PyNone "[]"]
  note k = C9_eager_failures [OF b(2), of "[PyInt 0, PyInt 1, PyInt 2]" PyNone "[]"]
  note a = C9_eager_failures [OF b(1), of "[PyInt 0, PyInt 1, PyInt 2]" PyNone "[]"]
  have "sequence (periodic_spec (- 9) []) = Inl ZeroDivisionError" using e by simp
  moreover have "sequence (periodic_spec 10 [PyInt 0, PyInt 1, PyInt 2]) = Inl KeyError"
    using k by simp
  moreover have "\<exists>s. sequence (periodic_spec (- 9) [PyInt 0, PyInt 1, PyInt 2]) = Inr (Emulated s)"
    using a by simp
  ultimately show ?thesis using b by blast
qed

end
